theory Spec2Isabelle
  imports Main
begin

section \<open>The offline cache of the battery dashboard: \<^verbatim>\<open>public/sw.js\<close>\<close>

text \<open>
  The service worker has three listeners: \<^verbatim>\<open>install\<close>, \<^verbatim>\<open>activate\<close> and \<^verbatim>\<open>fetch\<close>.
  Each listener is embedded as a function of the state it can observe (the cache storage
  of the origin, the network, the worker's own location) that returns the answer it gives,
  the storage it leaves behind, and the list of browser calls it makes, in the order in
  which they happen. A run is taken on its own: no other run changes the storage between
  its calls, and the storage has room for what is written.
\<close>

subsection \<open>Requests, responses, constants\<close>

text \<open>
  A fetch event only ever carries an \<^verbatim>\<open>http\<close> or \<^verbatim>\<open>https\<close> URL. The URL is kept in parsed
  form, as \<^verbatim>\<open>new URL(request.url)\<close> yields it: the host name is lower case, a default port
  is absent, \<open>path\<close> is the path name together with the query string. The fragment is left
  out: the cache never compares it.
\<close>

datatype scheme = Http | Https

record url =
  scheme :: scheme
  hostname :: string
  port :: "nat option"
  path :: string

text \<open>
  \<^verbatim>\<open>url.origin\<close> is the serialisation of scheme, host and port; two origins are the same
  string exactly when the three components agree, so the triple stands for the string.
\<close>

definition origin :: "url \<Rightarrow> scheme \<times> string \<times> nat option" where
  "origin u = (scheme u, hostname u, port u)"

text \<open>
  The request of a fetch event: \<open>http_method\<close> is \<^verbatim>\<open>request.method\<close>, \<open>url\<close> is the parsed
  \<^verbatim>\<open>request.url\<close>. The listener inspects nothing else; the request headers are kept
  because the cache compares them when a stored response has a \<^verbatim>\<open>Vary\<close> header.
\<close>

record request =
  http_method :: string
  url :: url
  request_headers :: "(string \<times> string) list"

text \<open>
  A response as the cache snapshots it: status, header list, body. The header list is the
  one the cache inspects: a header the browser keeps from it is not in the list.
\<close>

record response =
  status :: nat
  headers :: "(string \<times> string) list"
  body :: string

definition CACHE_VERSION :: string where
  "CACHE_VERSION = ''garden-battery-v1''"

definition APP_SHELL :: "string list" where
  "APP_SHELL = [''/'', ''/history'', ''/manifest.webmanifest'', ''/favicon.ico'', ''/assets/sun.gif'']"

subsection \<open>The browser interfaces the worker calls\<close>

text \<open>
  \<^verbatim>\<open>fetch(request)\<close> either rejects (\<open>None\<close>: offline, DNS, timeout) or resolves with a
  response (\<open>Some r\<close>), whatever the status of \<open>r\<close> is.
\<close>

type_synonym network = "request \<Rightarrow> response option"

text \<open>
  Header values: a \<^verbatim>\<open>Vary\<close> value is a comma-separated list of header names, each with
  optional white space (blank, tab, line feed, carriage return) around it; header names
  are compared without regard to case. The value of a header in a header list is the
  values of all headers of that name, joined by a comma and a blank.
\<close>

fun split_commas :: "string \<Rightarrow> string list" where
  "split_commas [] = [[]]"
| "split_commas (c # cs) =
     (if c = CHR '','' then [] # split_commas cs
      else (case split_commas cs of [] \<Rightarrow> [[c]] | w # ws \<Rightarrow> (c # w) # ws))"

definition http_space :: "char \<Rightarrow> bool" where
  "http_space c \<longleftrightarrow> c = CHR '' '' \<or> c = CHR 0x09 \<or> c = CHR 0x0A \<or> c = CHR 0x0D"

definition trim :: "string \<Rightarrow> string" where
  "trim s = rev (dropWhile http_space (rev (dropWhile http_space s)))"

definition lower_char :: "char \<Rightarrow> char" where
  "lower_char c =
     (case map_of (zip ''ABCDEFGHIJKLMNOPQRSTUVWXYZ'' ''abcdefghijklmnopqrstuvwxyz'') c of
        Some l \<Rightarrow> l
      | None \<Rightarrow> c)"

definition lower :: "string \<Rightarrow> string" where
  "lower s = map lower_char s"

definition get_header :: "(string \<times> string) list \<Rightarrow> string \<Rightarrow> string option" where
  "get_header hs name =
     (case map snd (filter (\<lambda>(n, v). lower n = lower name) hs) of
        [] \<Rightarrow> None
      | v # vs \<Rightarrow> Some (foldl (\<lambda>a b. a @ '', '' @ b) v vs))"

definition vary_names :: "response \<Rightarrow> string list" where
  "vary_names r =
     map (\<lambda>w. lower (trim w))
       (concat (map (\<lambda>(n, v). split_commas v) (filter (\<lambda>(n, v). lower n = ''vary'') (headers r))))"

definition vary_star :: "response \<Rightarrow> bool" where
  "vary_star r \<longleftrightarrow> ''*'' \<in> set (vary_names r)"

text \<open>
  A cache is a list of entries, each the GET request that was stored and the snapshot of
  its response; the cache storage is the list of named caches of the origin, in the order
  of their creation. A request matches an entry when it is a GET, its URL is the URL of
  the stored request, and for every header name that the \<^verbatim>\<open>Vary\<close> header of the stored
  response lists, the two requests carry the same value; a listed \<^verbatim>\<open>*\<close> matches nothing.
\<close>

type_synonym cache = "(request \<times> response) list"

type_synonym cache_storage = "(string \<times> cache) list"

definition request_matches :: "request \<Rightarrow> request \<times> response \<Rightarrow> bool" where
  "request_matches q e \<longleftrightarrow>
     http_method q = ''GET'' \<and> url q = url (fst e) \<and>
     list_all (\<lambda>name. name \<noteq> ''*'' \<and>
                 get_header (request_headers q) name = get_header (request_headers (fst e)) name)
       (vary_names (snd e))"

text \<open>\<^verbatim>\<open>cache.match(request)\<close>: the response of the first entry that the request matches.\<close>

definition cache_match :: "cache \<Rightarrow> request \<Rightarrow> response option" where
  "cache_match c q = map_option snd (find (request_matches q) c)"

text \<open>
  \<^verbatim>\<open>caches.match(request)\<close> is a method of the storage, not of one cache: it goes through
  every cache of the storage in creation order and resolves with the first hit, or with
  \<^verbatim>\<open>undefined\<close> (\<open>None\<close>) when no cache has a matching entry.
\<close>

fun caches_match :: "cache_storage \<Rightarrow> request \<Rightarrow> response option" where
  "caches_match [] q = None"
| "caches_match ((n, c) # cs) q =
     (case cache_match c q of Some r \<Rightarrow> Some r | None \<Rightarrow> caches_match cs q)"

definition caches_keys :: "cache_storage \<Rightarrow> string list" where
  "caches_keys cs = map fst cs"

text \<open>\<^verbatim>\<open>caches.open(name)\<close> creates the cache when the storage has none of that name.\<close>

definition caches_open :: "string \<Rightarrow> cache_storage \<Rightarrow> cache_storage" where
  "caches_open n cs = (if n \<in> set (caches_keys cs) then cs else cs @ [(n, [])])"

definition caches_delete :: "string \<Rightarrow> cache_storage \<Rightarrow> cache_storage" where
  "caches_delete n cs = filter (\<lambda>(m, c). m \<noteq> n) cs"

text \<open>The store of one generation: the cache of that name, if the storage has one.\<close>

definition generation :: "cache_storage \<Rightarrow> string \<Rightarrow> cache option" where
  "generation cs n = map_of cs n"

definition generation_lookup :: "cache_storage \<Rightarrow> string \<Rightarrow> request \<Rightarrow> response option" where
  "generation_lookup cs n q = (case generation cs n of None \<Rightarrow> None | Some c \<Rightarrow> cache_match c q)"

text \<open>Every entry of the storage, with the name of the cache that holds it.\<close>

definition entries :: "cache_storage \<Rightarrow> (string \<times> request \<times> response) list" where
  "entries cs = concat (map (\<lambda>(n, c). map (\<lambda>(q, r). (n, q, r)) c) cs)"

text \<open>
  \<^verbatim>\<open>cache.put(request, response)\<close> removes the entries that the request matches and adds
  the request with a snapshot of the whole response. It refuses (rejects with a
  \<^verbatim>\<open>TypeError\<close>, storing nothing) a response of status 206 and a response whose \<^verbatim>\<open>Vary\<close>
  header lists \<^verbatim>\<open>*\<close>.
\<close>

definition cache_put_accepts :: "response \<Rightarrow> bool" where
  "cache_put_accepts r \<longleftrightarrow> status r \<noteq> 206 \<and> \<not> vary_star r"

definition cache_put :: "cache \<Rightarrow> request \<Rightarrow> response \<Rightarrow> cache" where
  "cache_put c q r = filter (\<lambda>e. \<not> request_matches q e) c @ [(q, r)]"

fun update_cache :: "string \<Rightarrow> (cache \<Rightarrow> cache) \<Rightarrow> cache_storage \<Rightarrow> cache_storage" where
  "update_cache n f [] = []"
| "update_cache n f ((m, c) # cs) =
     (if m = n then (m, f c) # cs else (m, c) # update_cache n f cs)"

text \<open>\<^verbatim>\<open>response.ok\<close>: the status is in the range 200 to 299.\<close>

definition response_ok :: "response \<Rightarrow> bool" where
  "response_ok r \<longleftrightarrow> 200 \<le> status r \<and> status r \<le> 299"

subsection \<open>What a listener does\<close>

text \<open>
  The calls a listener makes, in the order in which they happen. A lookup records the key
  and what it resolved with.
\<close>

datatype effect =
    Fetch request
  | CachesMatch request "response option"
  | CachesOpen string
  | CachePut string request response
  | CachePutRejected string request
  | AddAllRejected string
  | CachesKeys
  | CachesDelete string
  | WaitUntil
  | SkipWaiting
  | ClientsClaim

text \<open>
  The listener either leaves the request to the browser or calls \<^verbatim>\<open>event.respondWith\<close>
  with a promise; in this worker that promise always fulfils, with a response or with
  \<^verbatim>\<open>undefined\<close> (\<open>None\<close>).
\<close>

datatype answer = NotIntercepted | RespondWith "response option"

record run =
  effects :: "effect list"
  storage :: cache_storage

record handled = run +
  answer :: answer

text \<open>
  What the page that issued the request sees. A promise that fulfils with something that
  is not a response makes the request fail with a network error. A request that is not
  intercepted is carried out by the browser. (A response is taken to be of a kind the
  browser accepts for the request.)
\<close>

datatype delivery = Delivered response | NetworkError

fun delivered :: "network \<Rightarrow> request \<Rightarrow> answer \<Rightarrow> delivery" where
  "delivered net req NotIntercepted =
     (case net req of Some r \<Rightarrow> Delivered r | None \<Rightarrow> NetworkError)"
| "delivered net req (RespondWith (Some r)) = Delivered r"
| "delivered net req (RespondWith None) = NetworkError"

subsection \<open>The fetch listener\<close>

text \<open>
  \<^verbatim>\<open>caches.open(CACHE_VERSION).then((cache) => cache.put(request, responseClone))\<close>:
  the clone is the same snapshot as the response handed to the page. Nothing waits for
  this chain and nothing catches its rejection.
\<close>

definition store_clone :: "request \<Rightarrow> response \<Rightarrow> cache_storage \<Rightarrow> effect list \<times> cache_storage" where
  "store_clone k responseClone cs =
     (let opened = caches_open CACHE_VERSION cs in
      if cache_put_accepts responseClone
      then ([CachesOpen CACHE_VERSION, CachePut CACHE_VERSION k responseClone],
            update_cache CACHE_VERSION (\<lambda>c. cache_put c k responseClone) opened)
      else ([CachesOpen CACHE_VERSION, CachePutRejected CACHE_VERSION k], opened))"

text \<open>
  \<^verbatim>\<open>caches.match("/")\<close>: the string becomes a GET request without headers of its own, for
  the path \<^verbatim>\<open>/\<close> at the worker's own location.
\<close>

definition root_request :: "url \<Rightarrow> request" where
  "root_request loc = \<lparr>http_method = ''GET'', url = loc\<lparr>path := ''/''\<rparr>, request_headers = []\<rparr>"

definition fetch_listener :: "url \<Rightarrow> network \<Rightarrow> cache_storage \<Rightarrow> request \<Rightarrow> handled" where
  "fetch_listener loc net cs req =
     (if http_method req \<noteq> ''GET'' then
        \<lparr>effects = [], storage = cs, answer = NotIntercepted\<rparr>
      else if origin (url req) = origin loc then
        (case caches_match cs req of
           Some cached \<Rightarrow>
             \<lparr>effects = [CachesMatch req (Some cached)],
              storage = cs,
              answer = RespondWith (Some cached)\<rparr>
         | None \<Rightarrow>
             (case net req of
                Some response \<Rightarrow>
                  (let (puts, cs') = store_clone req response cs in
                   \<lparr>effects = [CachesMatch req None, Fetch req] @ puts,
                    storage = cs',
                    answer = RespondWith (Some response)\<rparr>)
              | None \<Rightarrow>
                  \<lparr>effects = [CachesMatch req None, Fetch req,
                              CachesMatch (root_request loc) (caches_match cs (root_request loc))],
                   storage = cs,
                   answer = RespondWith (caches_match cs (root_request loc))\<rparr>))
      else if hostname (url req) = ''batteryapi.liese.space'' \<or> hostname (url req) = ''thingspeak.com'' then
        (case net req of
           Some response \<Rightarrow>
             (let (puts, cs') = store_clone req response cs in
              \<lparr>effects = [Fetch req] @ puts,
               storage = cs',
               answer = RespondWith (Some response)\<rparr>)
         | None \<Rightarrow>
             \<lparr>effects = [Fetch req, CachesMatch req (caches_match cs req)],
              storage = cs,
              answer = RespondWith (caches_match cs req)\<rparr>)
      else
        \<lparr>effects = [], storage = cs, answer = NotIntercepted\<rparr>)"

text \<open>The calls of a run that touch a cache, reading or writing.\<close>

fun cache_access :: "effect \<Rightarrow> bool" where
  "cache_access (CachesMatch k res) = True"
| "cache_access (CachesOpen n) = True"
| "cache_access (CachePut n k r) = True"
| "cache_access (CachePutRejected n k) = True"
| "cache_access (AddAllRejected n) = True"
| "cache_access CachesKeys = True"
| "cache_access (CachesDelete n) = True"
| "cache_access (Fetch req) = False"
| "cache_access WaitUntil = False"
| "cache_access SkipWaiting = False"
| "cache_access ClientsClaim = False"

subsection \<open>The install and activate listeners\<close>

text \<open>
  \<^verbatim>\<open>cache.addAll(urls)\<close> fetches every URL; it stores the responses, all of them at once,
  only when every fetch resolved with a response that is \<^verbatim>\<open>ok\<close> and that \<^verbatim>\<open>put\<close> accepts;
  otherwise it rejects and stores nothing.
\<close>

definition addAll_accepts :: "(request \<times> response) list \<Rightarrow> bool" where
  "addAll_accepts fetched = list_all (\<lambda>(k, r). response_ok r \<and> cache_put_accepts r) fetched"

definition cache_addAll ::
  "network \<Rightarrow> string \<Rightarrow> request list \<Rightarrow> cache_storage \<Rightarrow> effect list \<times> bool \<times> cache_storage" where
  "cache_addAll net n reqs cs =
     (case those (map (\<lambda>req. map_option (Pair req) (net req)) reqs) of
        None \<Rightarrow> (map Fetch reqs @ [AddAllRejected n], False, cs)
      | Some fetched \<Rightarrow>
          if addAll_accepts fetched
          then (map Fetch reqs @ map (\<lambda>(k, r). CachePut n k r) fetched, True,
                fold (\<lambda>(k, r). update_cache n (\<lambda>c. cache_put c k r)) fetched cs)
          else (map Fetch reqs @ [AddAllRejected n], False, cs))"

text \<open>The strings of \<^verbatim>\<open>APP_SHELL\<close> are resolved against the worker's own location.\<close>

definition shell_requests :: "url \<Rightarrow> request list" where
  "shell_requests loc =
     map (\<lambda>p. \<lparr>http_method = ''GET'', url = loc\<lparr>path := p\<rparr>, request_headers = []\<rparr>) APP_SHELL"

text \<open>
  A lifecycle listener hands a promise to \<^verbatim>\<open>event.waitUntil\<close>. The listener body runs to
  its end first: a callback given to \<^verbatim>\<open>then\<close> never runs before the turn that registered it
  is over. So the calls of the body come first in \<open>effects\<close>, in the order of the source
  text (the argument of \<^verbatim>\<open>waitUntil\<close> is evaluated before \<^verbatim>\<open>waitUntil\<close> is called), and the
  calls made by the callbacks follow. \<open>fulfilled\<close> tells whether the promise fulfilled.
\<close>

record lifecycle = run +
  fulfilled :: bool

definition install_listener :: "url \<Rightarrow> network \<Rightarrow> cache_storage \<Rightarrow> lifecycle" where
  "install_listener loc net cs =
     (let (added, ok, cs') = cache_addAll net CACHE_VERSION (shell_requests loc) (caches_open CACHE_VERSION cs) in
      \<lparr>effects = [CachesOpen CACHE_VERSION, WaitUntil, SkipWaiting] @ added,
       storage = cs',
       fulfilled = ok\<rparr>)"

definition activate_listener :: "cache_storage \<Rightarrow> lifecycle" where
  "activate_listener cs =
     (let keys = caches_keys cs;
          stale = filter (\<lambda>key. key \<noteq> CACHE_VERSION) keys in
      \<lparr>effects = [CachesKeys, WaitUntil, ClientsClaim] @ map CachesDelete stale,
       storage = fold caches_delete stale cs,
       fulfilled = True\<rparr>)"

subsection \<open>Order of the calls of a run\<close>

text \<open>
  The calls of the shell manifest's fetch-and-store, and the deletions of generations.
\<close>

fun shell_work :: "effect \<Rightarrow> bool" where
  "shell_work (Fetch req) = True"
| "shell_work (CachePut n k r) = True"
| "shell_work (AddAllRejected n) = True"
| "shell_work e = False"

fun stale_deletion :: "effect \<Rightarrow> bool" where
  "stale_deletion (CachesDelete n) = True"
| "stale_deletion e = False"

text \<open>The calls of a run made before, and after, the first occurrence of a given call.\<close>

definition calls_before :: "effect \<Rightarrow> effect list \<Rightarrow> effect list" where
  "calls_before e tr = takeWhile (\<lambda>x. x \<noteq> e) tr"

definition calls_after :: "effect \<Rightarrow> effect list \<Rightarrow> effect list" where
  "calls_after e tr = tl (dropWhile (\<lambda>x. x \<noteq> e) tr)"

subsection \<open>Example values\<close>

definition example_location :: url where
  "example_location = \<lparr>scheme = Https, hostname = ''garden.example'', port = None, path = ''/sw.js''\<rparr>"

definition example_page :: response where
  "example_page = \<lparr>status = 200, headers = [(''content-type'', ''text/html'')], body = ''<html>shell</html>''\<rparr>"

definition example_stats :: response where
  "example_stats = \<lparr>status = 200, headers = [(''content-type'', ''application/json'')], body = ''{soc:81}''\<rparr>"

definition get :: "url \<Rightarrow> request" where
  "get u = \<lparr>http_method = ''GET'', url = u, request_headers = []\<rparr>"

definition history_url :: url where
  "history_url = \<lparr>scheme = Https, hostname = ''garden.example'', port = None, path = ''/history''\<rparr>"

definition stats_url :: url where
  "stats_url = \<lparr>scheme = Https, hostname = ''batteryapi.liese.space'', port = None, path = ''/stats''\<rparr>"

definition other_url :: url where
  "other_url = \<lparr>scheme = Https, hostname = ''fonts.example'', port = None, path = ''/a.woff''\<rparr>"

definition offline :: network where
  "offline req = None"

definition online :: network where
  "online req = Some example_page"



definition example_not_found :: response where
  "example_not_found = \<lparr>status = 404, headers = [(''content-type'', ''text/plain'')], body = ''Not Found''\<rparr>"

definition not_found :: network where
  "not_found req = Some example_not_found"

definition example_old_page :: response where
  "example_old_page = \<lparr>status = 200, headers = [(''content-type'', ''text/html'')], body = ''<html>old shell</html>''\<rparr>"

definition root_url :: url where
  "root_url = \<lparr>scheme = Https, hostname = ''garden.example'', port = None, path = ''/''\<rparr>"

definition old_and_current :: cache_storage where
  "old_and_current =
     [(''garden-battery-v0'', [(get history_url, example_page)]),
      (CACHE_VERSION, [(get root_url, example_page)])]"

section \<open>Properties\<close>

lemmas example_defs =
  example_location_def example_page_def example_old_page_def example_stats_def get_def
  history_url_def stats_url_def other_url_def root_url_def offline_def origin_def root_request_def
  CACHE_VERSION_def

lemmas match_defs =
  cache_match_def request_matches_def vary_names_def get_header_def lower_def lower_char_def
  trim_def http_space_def

subsection \<open>Facts about the storage\<close>

lemma fold_caches_delete: "fold caches_delete ns cs = filter (\<lambda>(m, c). m \<notin> set ns) cs"
proof (induction ns arbitrary: cs)
  case Nil
  then show ?case by simp
next
  case (Cons n ns)
  have "fold caches_delete (n # ns) cs = fold caches_delete ns (caches_delete n cs)"
    by simp
  also have "\<dots> = filter (\<lambda>(m, c). m \<notin> set ns) (caches_delete n cs)"
    by (rule Cons.IH)
  also have "\<dots> = filter (\<lambda>(m, c). m \<notin> set (n # ns)) cs"
    unfolding caches_delete_def filter_filter by (rule filter_cong) auto
  finally show ?case .
qed

lemma activate_storage:
  "storage (activate_listener cs) = filter (\<lambda>(n, c). n = CACHE_VERSION) cs"
proof -
  have "filter (\<lambda>(m, c). m \<notin> set (filter (\<lambda>key. key \<noteq> CACHE_VERSION) (caches_keys cs))) cs
      = filter (\<lambda>(n, c). n = CACHE_VERSION) cs"
    by (rule filter_cong) (auto simp: caches_keys_def rev_image_eqI)
  then show ?thesis
    by (simp add: activate_listener_def Let_def fold_caches_delete)
qed

lemma generation_filter_current:
  "generation (filter (\<lambda>(n, c). n = v) cs) v = generation cs v"
  by (induction cs) (auto simp: generation_def)

lemma keys_filter_current:
  "caches_keys (filter (\<lambda>(n, c). n = v) cs) = filter (\<lambda>n. n = v) (caches_keys cs)"
  by (induction cs) (auto simp: caches_keys_def)

lemma caches_match_absent:
  "v \<notin> set (caches_keys cs) \<Longrightarrow> caches_match (filter (\<lambda>(n, c). n = v) cs) k = None"
  by (induction cs) (auto simp: caches_keys_def)

lemma caches_match_filter_current:
  "distinct (caches_keys cs) \<Longrightarrow>
   caches_match (filter (\<lambda>(n, c). n = v) cs) k = generation_lookup cs v k"
proof (induction cs)
  case Nil
  then show ?case by (simp add: generation_lookup_def generation_def)
next
  case (Cons a cs)
  obtain n c where a: "a = (n, c)" by (cases a)
  show ?case
  proof (cases "n = v")
    case True
    with Cons.prems a have "v \<notin> set (caches_keys cs)"
      by (simp add: caches_keys_def)
    then have "caches_match (filter (\<lambda>(n, c). n = v) cs) k = None"
      by (rule caches_match_absent)
    with True a show ?thesis
      by (simp add: generation_lookup_def generation_def split: option.split)
  next
    case False
    with Cons a show ?thesis
      by (simp add: generation_lookup_def generation_def caches_keys_def)
  qed
qed

lemma caches_match_only_current:
  assumes "distinct (caches_keys cs)" and "set (caches_keys cs) \<subseteq> {v}"
  shows "caches_match cs k = generation_lookup cs v k"
proof -
  have "filter (\<lambda>(n, c). n = v) cs = cs"
    using assms(2) by (auto simp: caches_keys_def filter_id_conv)
  with caches_match_filter_current [OF assms(1), of v k] show ?thesis
    by simp
qed

lemma map_of_update_cache_same:
  "map_of (update_cache n f cs) n = map_option f (map_of cs n)"
  by (induction cs) auto

lemma map_of_caches_open:
  "map_of (caches_open n cs) n = Some (case map_of cs n of None \<Rightarrow> [] | Some c \<Rightarrow> c)"
proof (cases "n \<in> set (caches_keys cs)")
  case True
  then obtain c where "map_of cs n = Some c"
    by (auto simp: caches_keys_def dest!: weak_map_of_SomeI elim: )
  with True show ?thesis
    by (simp add: caches_open_def)
next
  case False
  then have "map_of cs n = None"
    by (simp add: caches_keys_def map_of_eq_None_iff)
  with False show ?thesis
    by (simp add: caches_open_def map_add_def)
qed

lemma cache_match_miss:
  "\<forall>e \<in> set c. \<not> request_matches q e \<Longrightarrow> cache_match c q = None"
  by (simp add: cache_match_def find_None_iff)

lemma cache_match_first:
  assumes "\<forall>e \<in> set a. \<not> request_matches q e" and "request_matches q (sq, r)"
  shows "cache_match (a @ (sq, r) # b) q = Some r"
  using assms by (induction a) (auto simp: cache_match_def)

lemma caches_match_miss:
  "\<forall>(m, d) \<in> set cs. \<forall>e \<in> set d. \<not> request_matches q e \<Longrightarrow> caches_match cs q = None"
  by (induction cs) (auto simp: cache_match_miss)

lemma caches_match_first:
  assumes "\<forall>(m, d) \<in> set pre. \<forall>e \<in> set d. \<not> request_matches q e"
    and "\<forall>e \<in> set a. \<not> request_matches q e"
    and "request_matches q (sq, r)"
  shows "caches_match (pre @ (n, a @ (sq, r) # b) # post) q = Some r"
  using assms by (induction pre) (auto simp: cache_match_miss cache_match_first)

lemma request_matches_self:
  "http_method q = ''GET'' \<Longrightarrow> \<not> vary_star r \<Longrightarrow> request_matches q (q, r)"
  by (auto simp: request_matches_def vary_star_def list_all_iff)

lemma find_append_filter:
  "find P (filter (\<lambda>e. \<not> P e) c @ ys) = find P ys"
  by (induction c) auto

lemma cache_match_put_same:
  "request_matches q (q, r) \<Longrightarrow> cache_match (cache_put c q r) q = Some r"
  by (simp add: cache_match_def cache_put_def find_append_filter)

lemma find_filter_keeps:
  "(\<And>e. P e \<Longrightarrow> Q e) \<Longrightarrow> find P (filter Q c @ [x]) = (case find P c of None \<Rightarrow> find P [x] | Some e \<Rightarrow> Some e)"
  by (induction c) auto

lemma cache_match_put_other:
  assumes "url q' \<noteq> url q"
  shows "cache_match (cache_put c q' r') q = cache_match c q"
proof -
  have "find (request_matches q) (filter (\<lambda>e. \<not> request_matches q' e) c @ [(q', r')]) =
      (case find (request_matches q) c of None \<Rightarrow> find (request_matches q) [(q', r')] | Some e \<Rightarrow> Some e)"
    using assms by (intro find_filter_keeps) (auto simp: request_matches_def)
  moreover have "\<not> request_matches q (q', r')"
    using assms by (auto simp: request_matches_def)
  ultimately show ?thesis
    by (simp add: cache_match_def cache_put_def split: option.split)
qed

lemma stored_clone_is_found:
  "request_matches q (q, r) \<Longrightarrow>
   generation_lookup (update_cache n (\<lambda>c. cache_put c q r) (caches_open n cs)) n q = Some r"
  by (simp add: generation_lookup_def generation_def map_of_update_cache_same map_of_caches_open
      cache_match_put_same)

lemma entries_Nil: "entries [] = []"
  by (simp add: entries_def)

lemma entries_Cons: "entries ((n, c) # cs) = map (\<lambda>(k, r). (n, k, r)) c @ entries cs"
  by (simp add: entries_def)

lemma entries_append: "entries (cs @ ds) = entries cs @ entries ds"
  by (simp add: entries_def)

lemma entries_caches_open: "set (entries (caches_open n cs)) = set (entries cs)"
  by (simp add: caches_open_def entries_append entries_Cons entries_Nil)

lemma entries_cache_put: "set (cache_put c k r) \<subseteq> insert (k, r) (set c)"
  by (auto simp: cache_put_def)

lemma entries_update_put:
  "set (entries (update_cache n (\<lambda>c. cache_put c k r) cs)) \<subseteq> insert (n, k, r) (set (entries cs))"
proof (induction cs)
  case Nil
  then show ?case by (simp add: entries_Nil)
next
  case (Cons a cs)
  obtain m c where a: "a = (m, c)" by (cases a)
  show ?case
  proof (cases "m = n")
    case True
    with a entries_cache_put [of c k r] show ?thesis
      by (auto simp: entries_Cons)
  next
    case False
    with a Cons.IH show ?thesis
      by (auto simp: entries_Cons)
  qed
qed

lemma entries_fold_put:
  "set (entries (fold (\<lambda>(k, r). update_cache n (\<lambda>c. cache_put c k r)) es cs))
     \<subseteq> set (entries cs) \<union> (\<lambda>(k, r). (n, k, r)) ` set es"
proof (induction es arbitrary: cs)
  case Nil
  then show ?case by simp
next
  case (Cons e es)
  obtain k r where e: "e = (k, r)" by (cases e)
  have "set (entries (fold (\<lambda>(k, r). update_cache n (\<lambda>c. cache_put c k r)) (e # es) cs))
      \<subseteq> set (entries (update_cache n (\<lambda>c. cache_put c k r) cs)) \<union> (\<lambda>(k, r). (n, k, r)) ` set es"
    using Cons.IH [of "update_cache n (\<lambda>c. cache_put c k r) cs"] e by simp
  with entries_update_put [of n k r cs] e show ?case
    by auto
qed

lemma those_map_Some:
  "those (map f xs) = Some ys \<Longrightarrow> list_all2 (\<lambda>x y. f x = Some y) xs ys"
proof (induction xs arbitrary: ys)
  case Nil
  then show ?case by simp
next
  case (Cons x xs)
  then show ?case
    by (auto split: option.splits)
qed

lemma entries_store_clone:
  "set (entries (snd (store_clone k r cs))) \<subseteq> insert (CACHE_VERSION, k, r) (set (entries cs))"
  using entries_update_put [of CACHE_VERSION k r "caches_open CACHE_VERSION cs"]
  by (auto simp: store_clone_def Let_def entries_caches_open)

lemma fetch_listener_storage:
  "storage (fetch_listener loc net cs req) = cs \<or>
   (\<exists>r. net req = Some r \<and> storage (fetch_listener loc net cs req) = snd (store_clone req r cs))"
  by (auto simp: fetch_listener_def case_prod_unfold Let_def split: option.splits)

lemma fetch_listener_storage_offline:
  "net req = None \<Longrightarrow> storage (fetch_listener loc net cs req) = cs"
  by (auto simp: fetch_listener_def case_prod_unfold Let_def split: option.splits)

lemma fetch_listener_put:
  assumes "CachePut n k r \<in> set (effects (fetch_listener loc net cs req))"
  shows "n = CACHE_VERSION \<and> k = req \<and> net req = Some r \<and>
         generation_lookup (storage (fetch_listener loc net cs req)) CACHE_VERSION req = Some r"
proof -
  from assms have put: "http_method req = ''GET''" "cache_put_accepts r" "net req = Some r"
    "n = CACHE_VERSION" "k = req"
    "storage (fetch_listener loc net cs req) =
       update_cache CACHE_VERSION (\<lambda>c. cache_put c req r) (caches_open CACHE_VERSION cs)"
    by (auto simp: fetch_listener_def store_clone_def Let_def split: if_splits option.splits)
  then have "request_matches req (req, r)"
    by (simp add: cache_put_accepts_def request_matches_self)
  with put show ?thesis
    by (simp add: stored_clone_is_found)
qed

lemma cache_addAll_cases:
  obtains (rejected) "snd (cache_addAll net n reqs cs) = (False, cs)"
  | (stored) es where
      "snd (cache_addAll net n reqs cs) =
         (True, fold (\<lambda>(k, r). update_cache n (\<lambda>c. cache_put c k r)) es cs)"
      "list_all2 (\<lambda>q e. map_option (Pair q) (net q) = Some e) reqs es"
      "addAll_accepts es"
proof (cases "those (map (\<lambda>req. map_option (Pair req) (net req)) reqs)")
  case None
  then have "snd (cache_addAll net n reqs cs) = (False, cs)"
    by (simp add: cache_addAll_def)
  then show ?thesis by (rule rejected)
next
  case (Some es)
  show ?thesis
  proof (cases "addAll_accepts es")
    case True
    with Some have "snd (cache_addAll net n reqs cs) =
         (True, fold (\<lambda>(k, r). update_cache n (\<lambda>c. cache_put c k r)) es cs)"
      by (simp add: cache_addAll_def)
    moreover from Some have "list_all2 (\<lambda>q e. map_option (Pair q) (net q) = Some e) reqs es"
      by (rule those_map_Some)
    ultimately show ?thesis using True by (rule stored)
  next
    case False
    with Some have "snd (cache_addAll net n reqs cs) = (False, cs)"
      by (simp add: cache_addAll_def)
    then show ?thesis by (rule rejected)
  qed
qed

lemma fetched_entry:
  assumes "list_all2 (\<lambda>q e. map_option (Pair q) (net q) = Some e) reqs es"
    and "(k, r) \<in> set es"
  shows "k \<in> set reqs \<and> net k = Some r"
  using assms by (induction reqs es rule: list_all2_induct) auto

lemma entry_fetched:
  assumes "list_all2 (\<lambda>q e. map_option (Pair q) (net q) = Some e) reqs es"
    and "q \<in> set reqs"
  shows "\<exists>r. net q = Some r \<and> (q, r) \<in> set es"
  using assms by (induction reqs es rule: list_all2_induct) auto

lemma fetched_requests:
  assumes "list_all2 (\<lambda>q e. map_option (Pair q) (net q) = Some e) reqs es"
  shows "map fst es = reqs"
  using assms by (induction reqs es rule: list_all2_induct) auto

lemma cache_match_fold_put_other:
  "url q \<notin> (\<lambda>e. url (fst e)) ` set es \<Longrightarrow>
   cache_match (fold (\<lambda>(k, r) c. cache_put c k r) es c) q = cache_match c q"
proof (induction es arbitrary: c)
  case Nil
  then show ?case by simp
next
  case (Cons e es)
  obtain k r where e: "e = (k, r)" by (cases e)
  with Cons.prems have "url k \<noteq> url q" and "url q \<notin> (\<lambda>e. url (fst e)) ` set es"
    by auto
  with Cons.IH [of "cache_put c k r"] e show ?case
    by (simp add: cache_match_put_other)
qed

lemma cache_match_fold_put_distinct:
  assumes "distinct (map (\<lambda>e. url (fst e)) es)" and "(q, r) \<in> set es"
    and "request_matches q (q, r)"
  shows "cache_match (fold (\<lambda>(k, r) c. cache_put c k r) es c) q = Some r"
  using assms(1,2)
proof (induction es arbitrary: c)
  case Nil
  then show ?case by simp
next
  case (Cons e es)
  obtain k r' where e: "e = (k, r')" by (cases e)
  show ?case
  proof (cases "e = (q, r)")
    case True
    with Cons.prems(1) have "url q \<notin> (\<lambda>e. url (fst e)) ` set es"
      by simp
    with True assms(3) show ?thesis
      by (simp add: cache_match_fold_put_other cache_match_put_same)
  next
    case False
    with Cons.prems have "(q, r) \<in> set es" and "distinct (map (\<lambda>e. url (fst e)) es)"
      by auto
    with Cons.IH [of "cache_put c k r'"] e show ?thesis
      by simp
  qed
qed

lemma generation_fold_put:
  "generation (fold (\<lambda>(k, r). update_cache n (\<lambda>c. cache_put c k r)) es cs) n =
     map_option (fold (\<lambda>(k, r) c. cache_put c k r) es) (generation cs n)"
proof (induction es arbitrary: cs)
  case Nil
  then show ?case by (simp add: option.map_ident)
next
  case (Cons e es)
  obtain k r where e: "e = (k, r)" by (cases e)
  show ?case
    using Cons.IH [of "update_cache n (\<lambda>c. cache_put c k r) cs"] e
    by (simp add: generation_def map_of_update_cache_same option.map_comp comp_def)
qed

lemma addAll_stores_entry:
  assumes "generation cs n \<noteq> None" and "distinct (map (\<lambda>e. url (fst e)) es)"
    and "(q, r) \<in> set es" and "request_matches q (q, r)"
  shows "generation_lookup (fold (\<lambda>(k, r). update_cache n (\<lambda>c. cache_put c k r)) es cs) n q = Some r"
proof -
  from assms(1) obtain c where "generation cs n = Some c"
    by auto
  then show ?thesis
    by (simp add: generation_lookup_def generation_fold_put cache_match_fold_put_distinct [OF assms(2-4)])
qed

lemma shell_requests_get: "q \<in> set (shell_requests loc) \<Longrightarrow> http_method q = ''GET''"
  by (auto simp: shell_requests_def)

lemma shell_requests_distinct: "distinct (map url (shell_requests loc))"
proof -
  have "loc\<lparr>path := p\<rparr> = loc\<lparr>path := p'\<rparr> \<longleftrightarrow> p = p'" for p p'
    by (metis url.select_convs(4) url.surjective url.update_convs(4))
  then show ?thesis
    by (simp add: shell_requests_def APP_SHELL_def)
qed

lemma install_listener_run:
  "(fulfilled (install_listener loc net cs), storage (install_listener loc net cs)) =
     snd (cache_addAll net CACHE_VERSION (shell_requests loc) (caches_open CACHE_VERSION cs))"
  by (simp add: install_listener_def case_prod_unfold Let_def)

lemma install_listener_entries:
  "set (entries (storage (install_listener loc net cs))) \<subseteq>
     set (entries cs) \<union>
     {(CACHE_VERSION, q, r) |q r. q \<in> set (shell_requests loc) \<and> net q = Some r \<and> response_ok r}"
proof (cases net CACHE_VERSION "shell_requests loc" "caches_open CACHE_VERSION cs" rule: cache_addAll_cases)
  case rejected
  with install_listener_run [of loc net cs]
  have "storage (install_listener loc net cs) = caches_open CACHE_VERSION cs"
    by simp
  then show ?thesis
    by (simp add: entries_caches_open)
next
  case (stored es)
  with install_listener_run [of loc net cs]
  have st: "storage (install_listener loc net cs) =
      fold (\<lambda>(k, r). update_cache CACHE_VERSION (\<lambda>c. cache_put c k r)) es (caches_open CACHE_VERSION cs)"
    by simp
  have "(CACHE_VERSION, k, r) \<in>
      {(CACHE_VERSION, q, r) |q r. q \<in> set (shell_requests loc) \<and> net q = Some r \<and> response_ok r}"
    if "(k, r) \<in> set es" for k r
  proof -
    from fetched_entry [OF stored(2) that]
    have "k \<in> set (shell_requests loc)" "net k = Some r"
      by blast+
    moreover from stored(3) that have "response_ok r"
      by (auto simp: addAll_accepts_def list_all_iff)
    ultimately show ?thesis by blast
  qed
  with entries_fold_put [of CACHE_VERSION es "caches_open CACHE_VERSION cs"] show ?thesis
    unfolding st entries_caches_open by fastforce
qed

lemma install_listener_all_or_nothing:
  "(fulfilled (install_listener loc net cs) \<longrightarrow>
      (\<forall>q \<in> set (shell_requests loc). \<exists>r. net q = Some r \<and> response_ok r \<and>
         generation_lookup (storage (install_listener loc net cs)) CACHE_VERSION q = Some r)) \<and>
   (\<not> fulfilled (install_listener loc net cs) \<longrightarrow>
      storage (install_listener loc net cs) = caches_open CACHE_VERSION cs)"
proof (cases net CACHE_VERSION "shell_requests loc" "caches_open CACHE_VERSION cs" rule: cache_addAll_cases)
  case rejected
  with install_listener_run [of loc net cs] show ?thesis
    by simp
next
  case (stored es)
  with install_listener_run [of loc net cs]
  have ok: "fulfilled (install_listener loc net cs)"
    and st: "storage (install_listener loc net cs) =
      fold (\<lambda>(k, r). update_cache CACHE_VERSION (\<lambda>c. cache_put c k r)) es (caches_open CACHE_VERSION cs)"
    by simp_all
  have gen: "generation (caches_open CACHE_VERSION cs) CACHE_VERSION \<noteq> None"
    by (simp add: generation_def map_of_caches_open)
  have "map (\<lambda>e. url (fst e)) es = map url (map fst es)"
    by simp
  then have dist: "distinct (map (\<lambda>e. url (fst e)) es)"
    using shell_requests_distinct [of loc] fetched_requests [OF stored(2)] by simp
  have "\<exists>r. net q = Some r \<and> response_ok r \<and>
         generation_lookup (storage (install_listener loc net cs)) CACHE_VERSION q = Some r"
    if q: "q \<in> set (shell_requests loc)" for q
  proof -
    from entry_fetched [OF stored(2) q]
    obtain r where r: "net q = Some r" "(q, r) \<in> set es"
      by blast
    from stored(3) r(2) have acc: "response_ok r" "cache_put_accepts r"
      by (auto simp: addAll_accepts_def list_all_iff)
    with shell_requests_get [OF q] have "request_matches q (q, r)"
      by (simp add: cache_put_accepts_def request_matches_self)
    from addAll_stores_entry [OF gen dist r(2) this] r(1) acc(1) show ?thesis
      unfolding st by blast
  qed
  with ok show ?thesis
    by blast
qed

lemma activate_listener_entries:
  "set (entries (storage (activate_listener cs))) \<subseteq> set (entries cs)"
proof -
  have "set (entries (filter P cs)) \<subseteq> set (entries cs)" for P
    by (induction cs) (auto simp: entries_Cons entries_Nil)
  then show ?thesis
    by (simp add: activate_storage)
qed

subsection \<open>The claims\<close>

text \<open>
  C1, as stated, fails: the same-origin lookup is \<^verbatim>\<open>caches.match\<close> on the whole storage.
  With an older generation that holds the key in front of the current generation, which
  holds it too, the listener answers with the snapshot of the older generation, not with
  the one the current generation stores.
\<close>

theorem same_origin_hit_serves_older_generation:
  "http_method (get history_url) = ''GET'' \<and>
   origin (url (get history_url)) = origin example_location \<and>
   generation_lookup
     [(''garden-battery-v0'', [(get history_url, example_old_page)]),
      (CACHE_VERSION, [(get history_url, example_page)])]
     CACHE_VERSION (get history_url) = Some example_page \<and>
   answer (fetch_listener example_location offline
     [(''garden-battery-v0'', [(get history_url, example_old_page)]),
      (CACHE_VERSION, [(get history_url, example_page)])]
     (get history_url)) = RespondWith (Some example_old_page) \<and>
   example_old_page \<noteq> example_page"
  by (simp add: fetch_listener_def generation_lookup_def generation_def example_defs match_defs)

text \<open>
  C1, amended. A same-origin GET is answered from the first cache of the storage, in
  creation order, that holds an entry the request matches, with the snapshot of the first
  such entry of that cache (the snapshot of the current generation when no earlier cache
  has a matching entry); that lookup is the only call the listener makes (no network
  call, no cache write), and the storage is left as it was.
\<close>

theorem same_origin_hit_serves_first_snapshot:
  assumes "http_method req = ''GET''"
    and "origin (url req) = origin loc"
    and "cs = pre @ (n, a @ (stored, snapshot) # b) # post"
    and "\<forall>(m, d) \<in> set pre. \<forall>e \<in> set d. \<not> request_matches req e"
    and "\<forall>e \<in> set a. \<not> request_matches req e"
    and "request_matches req (stored, snapshot)"
  shows "answer (fetch_listener loc net cs req) = RespondWith (Some snapshot) \<and>
         delivered net req (answer (fetch_listener loc net cs req)) = Delivered snapshot \<and>
         effects (fetch_listener loc net cs req) = [CachesMatch req (Some snapshot)] \<and>
         storage (fetch_listener loc net cs req) = cs"
proof -
  have "caches_match cs req = Some snapshot"
    unfolding assms(3) using assms(4-6) by (rule caches_match_first)
  with assms(1,2) show ?thesis
    by (simp add: fetch_listener_def)
qed

theorem same_origin_hit_serves_first_snapshot_witness:
  "http_method (get history_url) = ''GET'' \<and>
   origin (url (get history_url)) = origin example_location \<and>
   request_matches (get history_url) (get history_url, example_page) \<and>
   \<not> request_matches (get history_url) (get root_url, example_old_page) \<and>
   answer (fetch_listener example_location offline
     [(''garden-battery-v0'', [(get root_url, example_old_page)]),
      (CACHE_VERSION, [(get root_url, example_old_page), (get history_url, example_page)])]
     (get history_url)) = RespondWith (Some example_page) \<and>
   effects (fetch_listener example_location offline
     [(''garden-battery-v0'', [(get root_url, example_old_page)]),
      (CACHE_VERSION, [(get root_url, example_old_page), (get history_url, example_page)])]
     (get history_url)) = [CachesMatch (get history_url) (Some example_page)]"
proof -
  have m: "http_method (get history_url) = ''GET''"
    by (simp add: example_defs)
  have o: "origin (url (get history_url)) = origin example_location"
    by (simp add: example_defs)
  have hit: "request_matches (get history_url) (get history_url, example_page)"
    by (simp add: example_defs match_defs)
  have no: "\<not> request_matches (get history_url) (get root_url, example_old_page)"
    by (simp add: example_defs match_defs)
  have shape: "[(''garden-battery-v0'', [(get root_url, example_old_page)]),
      (CACHE_VERSION, [(get root_url, example_old_page), (get history_url, example_page)])] =
      [(''garden-battery-v0'', [(get root_url, example_old_page)])] @
      (CACHE_VERSION, [(get root_url, example_old_page)] @ (get history_url, example_page) # []) # []"
    by simp
  have pre: "\<forall>(m, d) \<in> set [(''garden-battery-v0'', [(get root_url, example_old_page)])].
      \<forall>e \<in> set d. \<not> request_matches (get history_url) e"
    using no by simp
  have before: "\<forall>e \<in> set [(get root_url, example_old_page)]. \<not> request_matches (get history_url) e"
    using no by simp
  from same_origin_hit_serves_first_snapshot [OF m o shape pre before hit, of offline] m o hit no
  show ?thesis
    by simp
qed




text \<open>
  C3, as stated, fails: the lookup after a failed remote fetch is \<^verbatim>\<open>caches.match\<close> on the
  whole storage. With the key held by an older generation only, the current generation
  has no entry, yet the failure does not reach the page: the older snapshot is served.
\<close>

theorem remote_failure_serves_older_generation:
  "http_method (get stats_url) = ''GET'' \<and>
   origin (url (get stats_url)) \<noteq> origin example_location \<and>
   hostname (url (get stats_url)) = ''batteryapi.liese.space'' \<and>
   offline (get stats_url) = None \<and>
   generation_lookup
     [(''garden-battery-v0'', [(get stats_url, example_stats)]), (CACHE_VERSION, [])]
     CACHE_VERSION (get stats_url) = None \<and>
   delivered offline (get stats_url)
     (answer (fetch_listener example_location offline
        [(''garden-battery-v0'', [(get stats_url, example_stats)]), (CACHE_VERSION, [])]
        (get stats_url))) = Delivered example_stats"
  by (simp add: fetch_listener_def generation_lookup_def generation_def example_defs match_defs)

text \<open>
  C3, amended. A GET for one of the two allow-listed hosts (a foreign origin) whose
  network fetch fails is answered from the first cache of the storage, in creation order,
  that holds an entry the request matches, with the snapshot of the first such entry;
  when no cache of the storage holds a matching entry the promise fulfils with
  \<^verbatim>\<open>undefined\<close> and the page sees a failed request. The one lookup made is for the request
  itself, never for the root document, and nothing is written.
\<close>

theorem remote_failure_serves_first_snapshot_or_fails:
  assumes "http_method req = ''GET''"
    and "origin (url req) \<noteq> origin loc"
    and "hostname (url req) = ''batteryapi.liese.space'' \<or> hostname (url req) = ''thingspeak.com''"
    and "net req = None"
  shows "(\<forall>pre n a stored snapshot b post.
            cs = pre @ (n, a @ (stored, snapshot) # b) # post \<and>
            (\<forall>(m, d) \<in> set pre. \<forall>e \<in> set d. \<not> request_matches req e) \<and>
            (\<forall>e \<in> set a. \<not> request_matches req e) \<and>
            request_matches req (stored, snapshot) \<longrightarrow>
            answer (fetch_listener loc net cs req) = RespondWith (Some snapshot) \<and>
            delivered net req (answer (fetch_listener loc net cs req)) = Delivered snapshot \<and>
            effects (fetch_listener loc net cs req) = [Fetch req, CachesMatch req (Some snapshot)]) \<and>
         ((\<forall>(m, d) \<in> set cs. \<forall>e \<in> set d. \<not> request_matches req e) \<longrightarrow>
            answer (fetch_listener loc net cs req) = RespondWith None \<and>
            delivered net req (answer (fetch_listener loc net cs req)) = NetworkError \<and>
            effects (fetch_listener loc net cs req) = [Fetch req, CachesMatch req None]) \<and>
         (\<forall>q res. CachesMatch q res \<in> set (effects (fetch_listener loc net cs req)) \<longrightarrow>
            q = req \<and> url q \<noteq> loc\<lparr>path := ''/''\<rparr>) \<and>
         storage (fetch_listener loc net cs req) = cs"
proof -
  have key: "url req \<noteq> loc\<lparr>path := ''/''\<rparr>"
    using assms(2) by (auto simp: origin_def)
  have run: "fetch_listener loc net cs req =
      \<lparr>effects = [Fetch req, CachesMatch req (caches_match cs req)],
       storage = cs,
       answer = RespondWith (caches_match cs req)\<rparr>"
    using assms by (simp add: fetch_listener_def)
  have hit: "caches_match cs req = Some snapshot"
    if "cs = pre @ (n, a @ (stored, snapshot) # b) # post"
      and "\<forall>(m, d) \<in> set pre. \<forall>e \<in> set d. \<not> request_matches req e"
      and "\<forall>e \<in> set a. \<not> request_matches req e"
      and "request_matches req (stored, snapshot)"
    for pre n a stored snapshot b post
    unfolding that(1) using that(2-4) by (rule caches_match_first)
  have miss: "caches_match cs req = None"
    if "\<forall>(m, d) \<in> set cs. \<forall>e \<in> set d. \<not> request_matches req e"
    using that by (rule caches_match_miss)
  show ?thesis
    unfolding run using key hit miss by (auto simp del: split_paired_All)
qed

theorem remote_failure_serves_first_snapshot_or_fails_witness:
  "http_method (get stats_url) = ''GET'' \<and>
   origin (url (get stats_url)) \<noteq> origin example_location \<and>
   hostname (url (get stats_url)) = ''batteryapi.liese.space'' \<and>
   offline (get stats_url) = None \<and>
   request_matches (get stats_url) (get stats_url, example_stats) \<and>
   \<not> request_matches (get stats_url) (get root_url, example_page) \<and>
   delivered offline (get stats_url)
     (answer (fetch_listener example_location offline
        [(''garden-battery-v0'', [(get root_url, example_page)]),
         (CACHE_VERSION, [(get root_url, example_page), (get stats_url, example_stats)])]
        (get stats_url))) = Delivered example_stats \<and>
   delivered offline (get stats_url)
     (answer (fetch_listener example_location offline
        [(CACHE_VERSION, [(get root_url, example_page)])] (get stats_url))) = NetworkError"
proof -
  have m: "http_method (get stats_url) = ''GET''"
    by (simp add: example_defs)
  have o: "origin (url (get stats_url)) \<noteq> origin example_location"
    by (simp add: example_defs)
  have host: "hostname (url (get stats_url)) = ''batteryapi.liese.space''"
    by (simp add: example_defs)
  then have h: "hostname (url (get stats_url)) = ''batteryapi.liese.space'' \<or>
           hostname (url (get stats_url)) = ''thingspeak.com''"
    by simp
  have n: "offline (get stats_url) = None"
    by (simp add: example_defs)
  have hit: "request_matches (get stats_url) (get stats_url, example_stats)"
    by (simp add: example_defs match_defs)
  have no: "\<not> request_matches (get stats_url) (get root_url, example_page)"
    by (simp add: example_defs match_defs)
  note run = remote_failure_serves_first_snapshot_or_fails
    [where req = "get stats_url" and loc = example_location and net = offline, OF m o h n]
  have shape: "[(''garden-battery-v0'', [(get root_url, example_page)]),
         (CACHE_VERSION, [(get root_url, example_page), (get stats_url, example_stats)])] =
      [(''garden-battery-v0'', [(get root_url, example_page)])] @
      (CACHE_VERSION, [(get root_url, example_page)] @ (get stats_url, example_stats) # []) # [] \<and>
      (\<forall>(m, d) \<in> set [(''garden-battery-v0'', [(get root_url, example_page)])].
         \<forall>e \<in> set d. \<not> request_matches (get stats_url) e) \<and>
      (\<forall>e \<in> set [(get root_url, example_page)]. \<not> request_matches (get stats_url) e) \<and>
      request_matches (get stats_url) (get stats_url, example_stats)"
    using no hit by simp
  have served: "delivered offline (get stats_url)
     (answer (fetch_listener example_location offline
        [(''garden-battery-v0'', [(get root_url, example_page)]),
         (CACHE_VERSION, [(get root_url, example_page), (get stats_url, example_stats)])]
        (get stats_url))) = Delivered example_stats"
    using run [THEN conjunct1, rule_format, OF shape] by simp
  have none: "\<forall>(m, d) \<in> set [(CACHE_VERSION, [(get root_url, example_page)])].
      \<forall>e \<in> set d. \<not> request_matches (get stats_url) e"
    using no by simp
  have failed: "delivered offline (get stats_url)
     (answer (fetch_listener example_location offline
        [(CACHE_VERSION, [(get root_url, example_page)])] (get stats_url))) = NetworkError"
    using run [of "[(CACHE_VERSION, [(get root_url, example_page)])]"] none by blast
  from m o host n hit no served failed show ?thesis
    by blast
qed

text \<open>
  C4, as stated, fails: the fallback lookup is \<^verbatim>\<open>caches.match\<close> on the whole storage.
  With the root document held by an older generation only, it is absent from the current
  generation, yet the failure does not reach the page: the older root document is served.
\<close>

theorem same_origin_offline_serves_older_root:
  "http_method (get history_url) = ''GET'' \<and>
   origin (url (get history_url)) = origin example_location \<and>
   caches_match [(''garden-battery-v0'', [(get root_url, example_old_page)]), (CACHE_VERSION, [])]
     (get history_url) = None \<and>
   offline (get history_url) = None \<and>
   generation_lookup
     [(''garden-battery-v0'', [(get root_url, example_old_page)]), (CACHE_VERSION, [])]
     CACHE_VERSION (get root_url) = None \<and>
   delivered offline (get history_url)
     (answer (fetch_listener example_location offline
        [(''garden-battery-v0'', [(get root_url, example_old_page)]), (CACHE_VERSION, [])]
        (get history_url))) = Delivered example_old_page"
  by (simp add: fetch_listener_def generation_lookup_def generation_def example_defs match_defs)

text \<open>
  C4, amended. A same-origin GET that no cache of the storage has a matching entry for,
  and whose network fetch fails, is answered by a second lookup, for a GET of the path
  \<^verbatim>\<open>/\<close> at the worker's own location and not for the request: with the snapshot of the
  first matching entry of the first cache, in creation order, that holds one; when no
  cache holds the root document the promise fulfils with \<^verbatim>\<open>undefined\<close> and the page sees
  a failed request.
\<close>

theorem same_origin_offline_falls_back_to_root:
  assumes "http_method req = ''GET''"
    and "origin (url req) = origin loc"
    and "\<forall>(m, d) \<in> set cs. \<forall>e \<in> set d. \<not> request_matches req e"
    and "net req = None"
  shows "(\<forall>pre n a stored root b post.
            cs = pre @ (n, a @ (stored, root) # b) # post \<and>
            (\<forall>(m, d) \<in> set pre. \<forall>e \<in> set d. \<not> request_matches \<lparr>http_method = ''GET'', url = loc\<lparr>path := ''/''\<rparr>, request_headers = []\<rparr> e) \<and>
            (\<forall>e \<in> set a. \<not> request_matches \<lparr>http_method = ''GET'', url = loc\<lparr>path := ''/''\<rparr>, request_headers = []\<rparr> e) \<and>
            request_matches \<lparr>http_method = ''GET'', url = loc\<lparr>path := ''/''\<rparr>, request_headers = []\<rparr> (stored, root) \<longrightarrow>
            answer (fetch_listener loc net cs req) = RespondWith (Some root) \<and>
            delivered net req (answer (fetch_listener loc net cs req)) = Delivered root \<and>
            effects (fetch_listener loc net cs req) =
              [CachesMatch req None, Fetch req, CachesMatch \<lparr>http_method = ''GET'', url = loc\<lparr>path := ''/''\<rparr>, request_headers = []\<rparr> (Some root)]) \<and>
         ((\<forall>(m, d) \<in> set cs. \<forall>e \<in> set d. \<not> request_matches \<lparr>http_method = ''GET'', url = loc\<lparr>path := ''/''\<rparr>, request_headers = []\<rparr> e) \<longrightarrow>
            answer (fetch_listener loc net cs req) = RespondWith None \<and>
            delivered net req (answer (fetch_listener loc net cs req)) = NetworkError \<and>
            effects (fetch_listener loc net cs req) =
              [CachesMatch req None, Fetch req, CachesMatch \<lparr>http_method = ''GET'', url = loc\<lparr>path := ''/''\<rparr>, request_headers = []\<rparr> None]) \<and>
         storage (fetch_listener loc net cs req) = cs"
proof -
  have none: "caches_match cs req = None"
    using assms(3) by (rule caches_match_miss)
  have run: "fetch_listener loc net cs req =
      \<lparr>effects = [CachesMatch req None, Fetch req, CachesMatch \<lparr>http_method = ''GET'', url = loc\<lparr>path := ''/''\<rparr>, request_headers = []\<rparr> (caches_match cs \<lparr>http_method = ''GET'', url = loc\<lparr>path := ''/''\<rparr>, request_headers = []\<rparr>)],
       storage = cs,
       answer = RespondWith (caches_match cs \<lparr>http_method = ''GET'', url = loc\<lparr>path := ''/''\<rparr>, request_headers = []\<rparr>)\<rparr>"
    using assms(1,2,4) none by (simp add: fetch_listener_def root_request_def)
  have hit: "caches_match cs \<lparr>http_method = ''GET'', url = loc\<lparr>path := ''/''\<rparr>, request_headers = []\<rparr> = Some root"
    if "cs = pre @ (n, a @ (stored, root) # b) # post"
      and "\<forall>(m, d) \<in> set pre. \<forall>e \<in> set d. \<not> request_matches \<lparr>http_method = ''GET'', url = loc\<lparr>path := ''/''\<rparr>, request_headers = []\<rparr> e"
      and "\<forall>e \<in> set a. \<not> request_matches \<lparr>http_method = ''GET'', url = loc\<lparr>path := ''/''\<rparr>, request_headers = []\<rparr> e"
      and "request_matches \<lparr>http_method = ''GET'', url = loc\<lparr>path := ''/''\<rparr>, request_headers = []\<rparr> (stored, root)"
    for pre n a stored root b post
    unfolding that(1) using that(2-4) by (rule caches_match_first)
  have miss: "caches_match cs \<lparr>http_method = ''GET'', url = loc\<lparr>path := ''/''\<rparr>, request_headers = []\<rparr> = None"
    if "\<forall>(m, d) \<in> set cs. \<forall>e \<in> set d. \<not> request_matches \<lparr>http_method = ''GET'', url = loc\<lparr>path := ''/''\<rparr>, request_headers = []\<rparr> e"
    using that by (rule caches_match_miss)
  show ?thesis
    unfolding run using hit miss by (auto simp del: split_paired_All)
qed

theorem same_origin_offline_falls_back_to_root_witness:
  "http_method (get history_url) = ''GET'' \<and>
   origin (url (get history_url)) = origin example_location \<and>
   offline (get history_url) = None \<and>
   \<not> request_matches (get history_url) (get root_url, example_page) \<and>
   \<not> request_matches (get history_url) (get stats_url, example_stats) \<and>
   request_matches (get root_url) (get root_url, example_page) \<and>
   \<not> request_matches (get root_url) (get stats_url, example_stats) \<and>
   path (url (get root_url)) = ''/'' \<and>
   get root_url \<noteq> get history_url \<and>
   delivered offline (get history_url)
     (answer (fetch_listener example_location offline
        [(''garden-battery-v0'', [(get stats_url, example_stats)]),
         (CACHE_VERSION, [(get stats_url, example_stats), (get root_url, example_page)])]
        (get history_url))) = Delivered example_page \<and>
   delivered offline (get history_url)
     (answer (fetch_listener example_location offline
        [(CACHE_VERSION, [(get stats_url, example_stats)])] (get history_url))) = NetworkError"
proof -
  have m: "http_method (get history_url) = ''GET''"
    by (simp add: example_defs)
  have o: "origin (url (get history_url)) = origin example_location"
    by (simp add: example_defs)
  have n: "offline (get history_url) = None"
    by (simp add: example_defs)
  have no1: "\<not> request_matches (get history_url) (get root_url, example_page)"
    by (simp add: example_defs match_defs)
  have no2: "\<not> request_matches (get history_url) (get stats_url, example_stats)"
    by (simp add: example_defs match_defs)
  have hit: "request_matches (get root_url) (get root_url, example_page)"
    by (simp add: example_defs match_defs)
  have no3: "\<not> request_matches (get root_url) (get stats_url, example_stats)"
    by (simp add: example_defs match_defs)
  have p: "path (url (get root_url)) = ''/''"
    by (simp add: example_defs)
  have d: "get root_url \<noteq> get history_url"
    by (simp add: example_defs)
  have rq: "\<lparr>http_method = ''GET'', url = example_location\<lparr>path := ''/''\<rparr>, request_headers = []\<rparr> = get root_url"
    by (simp add: example_defs)
  have miss1: "\<forall>(m, d) \<in> set [(''garden-battery-v0'', [(get stats_url, example_stats)]),
         (CACHE_VERSION, [(get stats_url, example_stats), (get root_url, example_page)])].
       \<forall>e \<in> set d. \<not> request_matches (get history_url) e"
    using no1 no2 by simp
  have miss2: "\<forall>(m, d) \<in> set [(CACHE_VERSION, [(get stats_url, example_stats)])].
       \<forall>e \<in> set d. \<not> request_matches (get history_url) e"
    using no2 by simp
  have shape: "[(''garden-battery-v0'', [(get stats_url, example_stats)]),
         (CACHE_VERSION, [(get stats_url, example_stats), (get root_url, example_page)])] =
      [(''garden-battery-v0'', [(get stats_url, example_stats)])] @
      (CACHE_VERSION, [(get stats_url, example_stats)] @ (get root_url, example_page) # []) # [] \<and>
      (\<forall>(m, d) \<in> set [(''garden-battery-v0'', [(get stats_url, example_stats)])].
         \<forall>e \<in> set d. \<not> request_matches (get root_url) e) \<and>
      (\<forall>e \<in> set [(get stats_url, example_stats)]. \<not> request_matches (get root_url) e) \<and>
      request_matches (get root_url) (get root_url, example_page)"
    using no3 hit by simp
  have shell: "delivered offline (get history_url)
     (answer (fetch_listener example_location offline
        [(''garden-battery-v0'', [(get stats_url, example_stats)]),
         (CACHE_VERSION, [(get stats_url, example_stats), (get root_url, example_page)])]
        (get history_url))) = Delivered example_page"
    using same_origin_offline_falls_back_to_root
            [where req = "get history_url" and loc = example_location and net = offline,
             OF m o miss1 n, unfolded rq, THEN conjunct1, rule_format, OF shape]
    by simp
  have absent: "\<forall>(m, d) \<in> set [(CACHE_VERSION, [(get stats_url, example_stats)])].
       \<forall>e \<in> set d. \<not> request_matches (get root_url) e"
    using no3 by simp
  have failed: "delivered offline (get history_url)
     (answer (fetch_listener example_location offline
        [(CACHE_VERSION, [(get stats_url, example_stats)])] (get history_url))) = NetworkError"
    using same_origin_offline_falls_back_to_root
            [where req = "get history_url" and loc = example_location and net = offline,
             OF m o miss2 n, unfolded rq] absent
    by blast
  from m o n no1 no2 hit no3 p d shell failed show ?thesis
    by blast
qed

text \<open>
  C5. A request that is not a GET, and a GET that is neither same-origin nor for one of
  the two allow-listed host names, is not intercepted: the listener makes no call at all,
  so it reads no cache and writes none, and the storage is left as it was.
\<close>

theorem fetch_ignored_touches_no_cache:
  assumes "http_method req \<noteq> ''GET'' \<or>
           (origin (url req) \<noteq> origin loc \<and>
            hostname (url req) \<noteq> ''batteryapi.liese.space'' \<and>
            hostname (url req) \<noteq> ''thingspeak.com'')"
  shows "answer (fetch_listener loc net cs req) = NotIntercepted \<and>
         filter cache_access (effects (fetch_listener loc net cs req)) = [] \<and>
         effects (fetch_listener loc net cs req) = [] \<and>
         storage (fetch_listener loc net cs req) = cs"
  using assms by (auto simp: fetch_listener_def)

theorem fetch_ignored_touches_no_cache_witness:
  "origin (url (get other_url)) \<noteq> origin example_location \<and>
   hostname (url (get other_url)) \<noteq> ''batteryapi.liese.space'' \<and>
   hostname (url (get other_url)) \<noteq> ''thingspeak.com'' \<and>
   answer (fetch_listener example_location offline [(CACHE_VERSION, [(get other_url, example_page)])] (get other_url)) = NotIntercepted \<and>
   effects (fetch_listener example_location offline [(CACHE_VERSION, [(get other_url, example_page)])] (get other_url)) = [] \<and>
   storage (fetch_listener example_location offline [(CACHE_VERSION, [(get other_url, example_page)])] (get other_url))
     = [(CACHE_VERSION, [(get other_url, example_page)])]"
proof -
  have h: "http_method (get other_url) \<noteq> ''GET'' \<or>
      (origin (url (get other_url)) \<noteq> origin example_location \<and>
       hostname (url (get other_url)) \<noteq> ''batteryapi.liese.space'' \<and>
       hostname (url (get other_url)) \<noteq> ''thingspeak.com'')"
    by (simp add: example_defs)
  show ?thesis
    using fetch_ignored_touches_no_cache [OF h, of offline "[(CACHE_VERSION, [(get other_url, example_page)])]"]
    by (simp add: example_defs)
qed

text \<open>
  C6, as stated, fails for the refill of the fetch phase: the listener stores whatever
  response the fetch resolved with and never looks at its status. A same-origin miss
  answered by the network with status 404 leaves that response in the current generation.
\<close>

theorem refill_stores_not_found_response:
  "http_method (get history_url) = ''GET'' \<and>
   origin (url (get history_url)) = origin example_location \<and>
   not_found (get history_url) = Some example_not_found \<and>
   \<not> response_ok example_not_found \<and>
   effects (fetch_listener example_location not_found [] (get history_url)) =
     [CachesMatch (get history_url) None, Fetch (get history_url),
      CachesOpen CACHE_VERSION, CachePut CACHE_VERSION (get history_url) example_not_found] \<and>
   storage (fetch_listener example_location not_found [] (get history_url)) =
     [(CACHE_VERSION, [(get history_url, example_not_found)])]"
  by (simp add: fetch_listener_def store_clone_def not_found_def example_not_found_def
      response_ok_def cache_put_accepts_def vary_star_def vary_names_def lower_def lower_char_def
      caches_open_def caches_keys_def cache_put_def example_defs)

text \<open>
  C6, amended. An entry written by the refill of the fetch phase is a snapshot of the
  whole response (status, headers, body) that the network fetch of that request resolved
  with, whatever its status, stored in the current generation under the
  request; nothing is written when the fetch fails. An entry written by the install
  population is a snapshot of the whole response fetched for a manifest resource, and its
  status is in the range 200 to 299; the population writes an entry for every manifest
  resource or, when it rejects, none. The activate listener writes no entry. No other
  entry of the storage appears.
\<close>

theorem written_entries_are_network_snapshots:
  "set (entries (storage (fetch_listener loc net cs req))) \<subseteq>
     set (entries cs) \<union> (case net req of None \<Rightarrow> {} | Some r \<Rightarrow> {(CACHE_VERSION, req, r)}) \<and>
   (\<forall>n k r. CachePut n k r \<in> set (effects (fetch_listener loc net cs req)) \<longrightarrow>
      n = CACHE_VERSION \<and> k = req \<and> net req = Some r \<and>
      generation_lookup (storage (fetch_listener loc net cs req)) CACHE_VERSION req = Some r) \<and>
   (net req = None \<longrightarrow> storage (fetch_listener loc net cs req) = cs) \<and>
   set (entries (storage (install_listener loc net cs))) \<subseteq>
     set (entries cs) \<union>
     {(CACHE_VERSION, q, r) |q r. q \<in> set (shell_requests loc) \<and> net q = Some r \<and> response_ok r} \<and>
   (fulfilled (install_listener loc net cs) \<longrightarrow>
      (\<forall>q \<in> set (shell_requests loc). \<exists>r. net q = Some r \<and> response_ok r \<and>
         generation_lookup (storage (install_listener loc net cs)) CACHE_VERSION q = Some r)) \<and>
   (\<not> fulfilled (install_listener loc net cs) \<longrightarrow>
      storage (install_listener loc net cs) = caches_open CACHE_VERSION cs) \<and>
   set (entries (storage (activate_listener cs))) \<subseteq> set (entries cs)"
proof -
  have refill: "set (entries (storage (fetch_listener loc net cs req))) \<subseteq>
     set (entries cs) \<union> (case net req of None \<Rightarrow> {} | Some r \<Rightarrow> {(CACHE_VERSION, req, r)})"
  proof (cases "storage (fetch_listener loc net cs req) = cs")
    case True
    then show ?thesis by auto
  next
    case False
    with fetch_listener_storage [of loc net cs req]
    obtain r where r: "net req = Some r"
      and st: "storage (fetch_listener loc net cs req) = snd (store_clone req r cs)"
      by blast
    from entries_store_clone [of req r cs] show ?thesis
      unfolding st r by auto
  qed
  have puts: "\<forall>n k r. CachePut n k r \<in> set (effects (fetch_listener loc net cs req)) \<longrightarrow>
      n = CACHE_VERSION \<and> k = req \<and> net req = Some r \<and>
      generation_lookup (storage (fetch_listener loc net cs req)) CACHE_VERSION req = Some r"
    using fetch_listener_put by blast
  have failed: "net req = None \<longrightarrow> storage (fetch_listener loc net cs req) = cs"
    using fetch_listener_storage_offline by blast
  from refill puts failed install_listener_entries [of loc net cs]
    install_listener_all_or_nothing [of loc net cs] activate_listener_entries [of cs]
  show ?thesis
    by blast
qed

theorem written_entries_are_network_snapshots_witness:
  "fulfilled (install_listener example_location online []) \<and>
   get root_url \<in> set (shell_requests example_location) \<and>
   generation_lookup (storage (install_listener example_location online []))
     CACHE_VERSION (get root_url) = Some example_page \<and>
   \<not> fulfilled (install_listener example_location offline []) \<and>
   storage (install_listener example_location offline []) = [(CACHE_VERSION, [])] \<and>
   CachePut CACHE_VERSION (get history_url) example_not_found \<in>
     set (effects (fetch_listener example_location not_found [] (get history_url))) \<and>
   generation_lookup (storage (fetch_listener example_location not_found [] (get history_url)))
     CACHE_VERSION (get history_url) = Some example_not_found \<and>
   offline (get history_url) = None \<and>
   storage (fetch_listener example_location offline [] (get history_url)) = []"
proof -
  have ok: "fulfilled (install_listener example_location online [])"
    by (simp add: install_listener_def cache_addAll_def shell_requests_def APP_SHELL_def
        online_def addAll_accepts_def response_ok_def cache_put_accepts_def vary_star_def
        vary_names_def lower_def lower_char_def example_page_def)
  have q: "get root_url \<in> set (shell_requests example_location)"
    by (simp add: shell_requests_def APP_SHELL_def get_def root_url_def example_location_def)
  from written_entries_are_network_snapshots [of example_location online "[]"] ok q
  obtain r where "online (get root_url) = Some r"
    and "generation_lookup (storage (install_listener example_location online []))
           CACHE_VERSION (get root_url) = Some r"
    by blast
  then have shell: "generation_lookup (storage (install_listener example_location online []))
     CACHE_VERSION (get root_url) = Some example_page"
    by (simp add: online_def)
  have rejected: "\<not> fulfilled (install_listener example_location offline [])"
    by (simp add: install_listener_def cache_addAll_def shell_requests_def APP_SHELL_def offline_def)
  with written_entries_are_network_snapshots [of example_location offline "[]"]
  have "storage (install_listener example_location offline []) = caches_open CACHE_VERSION []"
    by blast
  then have empty_store: "storage (install_listener example_location offline []) = [(CACHE_VERSION, [])]"
    by (simp add: caches_open_def caches_keys_def)
  have put: "CachePut CACHE_VERSION (get history_url) example_not_found \<in>
     set (effects (fetch_listener example_location not_found [] (get history_url)))"
    by (simp add: fetch_listener_def store_clone_def not_found_def example_not_found_def
        cache_put_accepts_def vary_star_def vary_names_def lower_def lower_char_def example_defs)
  with written_entries_are_network_snapshots [of example_location not_found "[]" "get history_url"]
  have stored: "generation_lookup (storage (fetch_listener example_location not_found [] (get history_url)))
     CACHE_VERSION (get history_url) = Some example_not_found"
    by blast
  have off: "offline (get history_url) = None"
    by (simp add: offline_def)
  with written_entries_are_network_snapshots [of example_location offline "[]" "get history_url"]
  have unchanged: "storage (fetch_listener example_location offline [] (get history_url)) = []"
    by blast
  from ok q shell rejected empty_store put stored off unchanged show ?thesis
    by blast
qed

text \<open>
  C7, as stated, fails: a lookup of the fetch phase is \<^verbatim>\<open>caches.match\<close> on the whole storage.
  With an older generation still in the storage that holds the key, while the current
  generation does not, the same-origin lookup resolves with the entry of the older
  generation and the listener serves it.
\<close>

theorem fetch_lookup_finds_older_generation:
  "http_method (get history_url) = ''GET'' \<and>
   origin (url (get history_url)) = origin example_location \<and>
   generation_lookup old_and_current CACHE_VERSION (get history_url) = None \<and>
   generation_lookup old_and_current ''garden-battery-v0'' (get history_url) = Some example_page \<and>
   effects (fetch_listener example_location offline old_and_current (get history_url)) =
     [CachesMatch (get history_url) (Some example_page)] \<and>
   answer (fetch_listener example_location offline old_and_current (get history_url)) =
     RespondWith (Some example_page)"
  by (simp add: fetch_listener_def old_and_current_def generation_lookup_def generation_def
      example_defs match_defs)

text \<open>
  C7, amended. Every lookup the fetch listener makes (the same-origin lookup, the lookup
  after a failed remote fetch, the lookup of the root document) searches the whole
  storage: it resolves with the snapshot of the first matching entry of the first cache,
  in creation order, that holds one, whichever generation that is, and with nothing only
  when no cache holds a matching entry. When the current generation is the only cache of
  the storage, which is what a completed activate leaves, that is the lookup in the
  current generation's store.
\<close>

theorem fetch_lookups_search_whole_storage:
  assumes "CachesMatch q res \<in> set (effects (fetch_listener loc net cs req))"
  shows "(\<forall>pre n a stored snapshot b post.
            cs = pre @ (n, a @ (stored, snapshot) # b) # post \<and>
            (\<forall>(m, d) \<in> set pre. \<forall>e \<in> set d. \<not> request_matches q e) \<and>
            (\<forall>e \<in> set a. \<not> request_matches q e) \<and>
            request_matches q (stored, snapshot) \<longrightarrow> res = Some snapshot) \<and>
         ((\<forall>(m, d) \<in> set cs. \<forall>e \<in> set d. \<not> request_matches q e) \<longrightarrow> res = None) \<and>
         (distinct (caches_keys cs) \<and> set (caches_keys cs) \<subseteq> {CACHE_VERSION} \<longrightarrow>
            res = generation_lookup cs CACHE_VERSION q)"
proof -
  have whole: "res = caches_match cs q"
    using assms
    by (auto simp: fetch_listener_def store_clone_def Let_def split: if_splits option.splits)
  have hit: "caches_match cs q = Some snapshot"
    if "cs = pre @ (n, a @ (stored, snapshot) # b) # post"
      and "\<forall>(m, d) \<in> set pre. \<forall>e \<in> set d. \<not> request_matches q e"
      and "\<forall>e \<in> set a. \<not> request_matches q e"
      and "request_matches q (stored, snapshot)"
    for pre n a stored snapshot b post
    unfolding that(1) using that(2-4) by (rule caches_match_first)
  have miss: "caches_match cs q = None"
    if "\<forall>(m, d) \<in> set cs. \<forall>e \<in> set d. \<not> request_matches q e"
    using that by (rule caches_match_miss)
  show ?thesis
    unfolding whole using hit miss caches_match_only_current [of cs CACHE_VERSION q]
    by (auto simp del: split_paired_All)
qed

theorem fetch_lookups_search_whole_storage_witness:
  "request_matches (get history_url) (get history_url, example_page) \<and>
   \<not> request_matches (get history_url) (get root_url, example_old_page) \<and>
   CachesMatch (get history_url) (Some example_page) \<in>
     set (effects (fetch_listener example_location offline
       [(''garden-battery-v0'', [(get root_url, example_old_page)]),
        (CACHE_VERSION, [(get root_url, example_old_page), (get history_url, example_page)])]
       (get history_url))) \<and>
   CachesMatch (get history_url) None \<in>
     set (effects (fetch_listener example_location offline
       [(CACHE_VERSION, [(get root_url, example_old_page)])] (get history_url))) \<and>
   distinct (caches_keys [(CACHE_VERSION, [(get root_url, example_old_page)])]) \<and>
   set (caches_keys [(CACHE_VERSION, [(get root_url, example_old_page)])]) \<subseteq> {CACHE_VERSION} \<and>
   None = generation_lookup [(CACHE_VERSION, [(get root_url, example_old_page)])] CACHE_VERSION (get history_url)"
proof -
  have hit: "request_matches (get history_url) (get history_url, example_page)"
    by (simp add: example_defs match_defs)
  have no: "\<not> request_matches (get history_url) (get root_url, example_old_page)"
    by (simp add: example_defs match_defs)
  have shape: "[(''garden-battery-v0'', [(get root_url, example_old_page)]),
        (CACHE_VERSION, [(get root_url, example_old_page), (get history_url, example_page)])] =
      [(''garden-battery-v0'', [(get root_url, example_old_page)])] @
      (CACHE_VERSION, [(get root_url, example_old_page)] @ (get history_url, example_page) # []) # [] \<and>
      (\<forall>(m, d) \<in> set [(''garden-battery-v0'', [(get root_url, example_old_page)])].
         \<forall>e \<in> set d. \<not> request_matches (get history_url) e) \<and>
      (\<forall>e \<in> set [(get root_url, example_old_page)]. \<not> request_matches (get history_url) e) \<and>
      request_matches (get history_url) (get history_url, example_page)"
    using no hit by simp
  have e1: "CachesMatch (get history_url)
       (caches_match [(''garden-battery-v0'', [(get root_url, example_old_page)]),
          (CACHE_VERSION, [(get root_url, example_old_page), (get history_url, example_page)])]
          (get history_url)) \<in>
     set (effects (fetch_listener example_location offline
       [(''garden-battery-v0'', [(get root_url, example_old_page)]),
        (CACHE_VERSION, [(get root_url, example_old_page), (get history_url, example_page)])]
       (get history_url)))"
    by (simp add: fetch_listener_def example_defs match_defs)
  from fetch_lookups_search_whole_storage [OF e1, THEN conjunct1, rule_format, OF shape] e1
  have first: "CachesMatch (get history_url) (Some example_page) \<in>
     set (effects (fetch_listener example_location offline
       [(''garden-battery-v0'', [(get root_url, example_old_page)]),
        (CACHE_VERSION, [(get root_url, example_old_page), (get history_url, example_page)])]
       (get history_url)))"
    by simp
  have e2: "CachesMatch (get history_url) None \<in>
     set (effects (fetch_listener example_location offline
       [(CACHE_VERSION, [(get root_url, example_old_page)])] (get history_url)))"
    by (simp add: fetch_listener_def example_defs match_defs)
  have d: "distinct (caches_keys [(CACHE_VERSION, [(get root_url, example_old_page)])])"
    by (simp add: caches_keys_def)
  have s: "set (caches_keys [(CACHE_VERSION, [(get root_url, example_old_page)])]) \<subseteq> {CACHE_VERSION}"
    by (simp add: caches_keys_def)
  from fetch_lookups_search_whole_storage [OF e2] d s
  have "None = generation_lookup [(CACHE_VERSION, [(get root_url, example_old_page)])] CACHE_VERSION (get history_url)"
    by blast
  with hit no first e2 d s show ?thesis
    by blast
qed

text \<open>
  C8, as stated, fails: \<^verbatim>\<open>self.skipWaiting()\<close> and \<^verbatim>\<open>self.clients.claim()\<close> are statements
  of the listener body, not callbacks of the promise handed to \<^verbatim>\<open>waitUntil\<close>. In a
  successful install the five fetches and the five stores all come after the call of
  skip-waiting; in an activate with a stale generation the deletion comes after the call
  of claim.
\<close>

theorem skip_waiting_and_claim_come_first:
  "filter shell_work (calls_after SkipWaiting (effects (install_listener example_location online []))) =
     map Fetch (shell_requests example_location) @
     map (\<lambda>req. CachePut CACHE_VERSION req example_page) (shell_requests example_location) \<and>
   fulfilled (install_listener example_location online []) \<and>
   filter stale_deletion (calls_after ClientsClaim (effects (activate_listener old_and_current))) =
     [CachesDelete ''garden-battery-v0'']"
  by (simp add: calls_after_def install_listener_def activate_listener_def cache_addAll_def
      shell_requests_def APP_SHELL_def online_def addAll_accepts_def response_ok_def
      cache_put_accepts_def vary_star_def caches_open_def caches_keys_def old_and_current_def
      example_page_def CACHE_VERSION_def vary_names_def lower_def lower_char_def get_def history_url_def root_url_def)

text \<open>
  C8, amended. The install listener calls skip-waiting in the turn of the listener body,
  right after handing the pending fetch-and-store to \<^verbatim>\<open>waitUntil\<close> and before any call of
  that fetch-and-store is made; the whole of \<^verbatim>\<open>addAll\<close> runs after it. The activate
  listener calls claim right after handing the pending deletion to \<^verbatim>\<open>waitUntil\<close> and
  before any generation is deleted.
\<close>

theorem signals_precede_pending_work:
  "calls_before SkipWaiting (effects (install_listener loc net cs)) = [CachesOpen CACHE_VERSION, WaitUntil] \<and>
   calls_after SkipWaiting (effects (install_listener loc net cs)) =
     fst (cache_addAll net CACHE_VERSION (shell_requests loc) (caches_open CACHE_VERSION cs)) \<and>
   filter shell_work (calls_before SkipWaiting (effects (install_listener loc net cs))) = [] \<and>
   filter shell_work (calls_after SkipWaiting (effects (install_listener loc net cs))) \<noteq> [] \<and>
   calls_before ClientsClaim (effects (activate_listener cs)) = [CachesKeys, WaitUntil] \<and>
   calls_after ClientsClaim (effects (activate_listener cs)) =
     map CachesDelete (filter (\<lambda>key. key \<noteq> CACHE_VERSION) (caches_keys cs)) \<and>
   filter stale_deletion (calls_before ClientsClaim (effects (activate_listener cs))) = []"
proof -
  have work: "filter shell_work (fst (cache_addAll net n reqs cs')) \<noteq> []" if "reqs \<noteq> []" for n reqs cs'
    using that by (cases reqs) (auto simp: cache_addAll_def split: option.splits)
  have shell: "shell_requests loc \<noteq> []"
    by (simp add: shell_requests_def APP_SHELL_def)
  show ?thesis
    using work [OF shell, of CACHE_VERSION "caches_open CACHE_VERSION cs"]
    by (simp add: calls_before_def calls_after_def install_listener_def activate_listener_def
        Let_def case_prod_unfold)
qed

theorem signals_precede_pending_work_witness:
  "calls_before SkipWaiting (effects (install_listener example_location offline old_and_current)) =
     [CachesOpen CACHE_VERSION, WaitUntil] \<and>
   calls_after ClientsClaim (effects (activate_listener old_and_current)) =
     [CachesDelete ''garden-battery-v0'']"
  using signals_precede_pending_work [of example_location offline old_and_current]
  by (simp add: old_and_current_def caches_keys_def CACHE_VERSION_def)

text \<open>
  C9. The activate listener deletes exactly the caches whose name differs from
  \<^verbatim>\<open>CACHE_VERSION\<close>: the storage it leaves is the storage it found without them. A
  superseded generation is no longer among the names of the storage, the store of the
  current generation is as it was, and a key that the current generation does not hold
  is not found any more, whichever superseded generation held it. (The names of a cache
  storage are distinct.)
\<close>

theorem activate_deletes_exactly_stale_generations:
  assumes "distinct (caches_keys cs)"
  shows "effects (activate_listener cs) =
           [CachesKeys, WaitUntil, ClientsClaim] @
           map CachesDelete (filter (\<lambda>n. n \<noteq> CACHE_VERSION) (caches_keys cs)) \<and>
         storage (activate_listener cs) = filter (\<lambda>(n, c). n = CACHE_VERSION) cs \<and>
         (\<forall>n. n \<noteq> CACHE_VERSION \<longrightarrow> n \<notin> set (caches_keys (storage (activate_listener cs)))) \<and>
         generation (storage (activate_listener cs)) CACHE_VERSION = generation cs CACHE_VERSION \<and>
         (\<forall>k. generation_lookup cs CACHE_VERSION k = None \<longrightarrow>
              caches_match (storage (activate_listener cs)) k = None)"
proof -
  have calls: "effects (activate_listener cs) =
           [CachesKeys, WaitUntil, ClientsClaim] @
           map CachesDelete (filter (\<lambda>n. n \<noteq> CACHE_VERSION) (caches_keys cs))"
    by (simp add: activate_listener_def Let_def)
  have gone: "\<forall>n. n \<noteq> CACHE_VERSION \<longrightarrow> n \<notin> set (caches_keys (storage (activate_listener cs)))"
    by (simp add: activate_storage keys_filter_current)
  have kept: "generation (storage (activate_listener cs)) CACHE_VERSION = generation cs CACHE_VERSION"
    by (simp add: activate_storage generation_filter_current)
  have miss: "\<forall>k. generation_lookup cs CACHE_VERSION k = None \<longrightarrow>
              caches_match (storage (activate_listener cs)) k = None"
    by (simp add: activate_storage caches_match_filter_current [OF assms])
  from calls activate_storage gone kept miss show ?thesis
    by blast
qed

theorem activate_deletes_exactly_stale_generations_witness:
  "distinct (caches_keys old_and_current) \<and>
   effects (activate_listener old_and_current) =
     [CachesKeys, WaitUntil, ClientsClaim, CachesDelete ''garden-battery-v0''] \<and>
   storage (activate_listener old_and_current) =
     [(CACHE_VERSION, [(get root_url, example_page)])] \<and>
   generation_lookup old_and_current ''garden-battery-v0'' (get history_url) = Some example_page \<and>
   generation_lookup old_and_current CACHE_VERSION (get history_url) = None \<and>
   caches_match (storage (activate_listener old_and_current)) (get history_url) = None \<and>
   caches_keys (storage (activate_listener old_and_current)) = [CACHE_VERSION]"
proof -
  have d: "distinct (caches_keys old_and_current)"
    by (simp add: old_and_current_def caches_keys_def CACHE_VERSION_def)
  have old: "generation_lookup old_and_current ''garden-battery-v0'' (get history_url) = Some example_page"
    by (simp add: old_and_current_def generation_lookup_def generation_def example_defs match_defs)
  have cur: "generation_lookup old_and_current CACHE_VERSION (get history_url) = None"
    by (simp add: old_and_current_def generation_lookup_def generation_def example_defs match_defs)
  note a = activate_deletes_exactly_stale_generations [OF d]
  have calls: "effects (activate_listener old_and_current) =
     [CachesKeys, WaitUntil, ClientsClaim, CachesDelete ''garden-battery-v0'']"
    using a by (simp add: old_and_current_def caches_keys_def CACHE_VERSION_def)
  have st: "storage (activate_listener old_and_current) =
     [(CACHE_VERSION, [(get root_url, example_page)])]"
    using a by (simp add: old_and_current_def CACHE_VERSION_def)
  have miss: "caches_match (storage (activate_listener old_and_current)) (get history_url) = None"
    using a cur by blast
  have keys: "caches_keys (storage (activate_listener old_and_current)) = [CACHE_VERSION]"
    unfolding st by (simp add: caches_keys_def)
  from d calls st old cur miss keys show ?thesis
    by blast
qed

end
